theory Spec2Isabelle
  imports Main "HOL-Library.Sublist" "HOL-Library.Word"
begin

unbundle bit_operations_syntax

section \<open>Strings as the program uses them\<close>

text \<open>
  A \<open>std::string\<close> is a list of bytes. \<open>s[i]\<close> is defined for \<open>i \<le> size\<close>: at
  \<open>i = size\<close> it reads the terminating null character. The program only ever reads index 0.
\<close>

definition char_at :: "string \<Rightarrow> nat \<Rightarrow> char" where
  "char_at s i = (if i < length s then s ! i else CHR 0x00)"

text \<open>
  \<open>name.find(pattern)\<close> from position 0: the first index at which \<open>pattern\<close> starts,
  \<open>None\<close> for \<open>npos\<close>. The empty pattern is found at index 0 of every string.
\<close>

fun find_str :: "string \<Rightarrow> string \<Rightarrow> nat option" where
  "find_str [] pat = (if pat = [] then Some 0 else None)"
| "find_str (c # cs) pat =
     (if prefix pat (c # cs) then Some 0 else map_option Suc (find_str cs pat))"

text \<open>\<open>s.find_last_of(c)\<close>: the last index holding \<open>c\<close>, \<open>None\<close> for \<open>npos\<close>.\<close>

fun find_last_of :: "string \<Rightarrow> char \<Rightarrow> nat option" where
  "find_last_of [] c = None"
| "find_last_of (x # xs) c =
     (case find_last_of xs c of
        Some i \<Rightarrow> Some (Suc i)
      | None \<Rightarrow> if x = c then Some 0 else None)"

text \<open>\<open>s.substr(pos, n)\<close> for \<open>pos \<le> size\<close> (the program calls it with \<open>pos = 0\<close>).\<close>

definition substr :: "string \<Rightarrow> nat \<Rightarrow> nat \<Rightarrow> string" where
  "substr s pos n = take n (drop pos s)"

section \<open>The explorer and its cursor\<close>

record FileExplorer =
  currentPath :: string

text \<open>
  \<open>getcwd(buf, size)\<close>: the argument \<open>cwd\<close> is the working directory of the process as
  the kernel knows it (\<open>None\<close> when it is unavailable); the call fails when the path and
  its terminating null do not fit the buffer.
\<close>

definition getcwd :: "string option \<Rightarrow> nat \<Rightarrow> string option" where
  "getcwd cwd bufsize =
     (case cwd of
        None \<Rightarrow> None
      | Some d \<Rightarrow> if length d + 1 \<le> bufsize then Some d else None)"

text \<open>The constructor \<open>FileExplorer::FileExplorer()\<close>.\<close>

definition FileExplorer_new :: "string option \<Rightarrow> FileExplorer" where
  "FileExplorer_new cwd =
     (case getcwd cwd 1024 of
        Some buf \<Rightarrow> \<lparr>currentPath = buf\<rparr>
      | None \<Rightarrow> \<lparr>currentPath = ''/''\<rparr>)"

text \<open>
  \<open>changeDirectory\<close>, first half: the local \<open>newPath\<close> computed from the cursor and the
  token.
\<close>

definition newPath :: "string \<Rightarrow> string \<Rightarrow> string" where
  "newPath cur path =
     (if path = ''..'' then
        (case find_last_of cur CHR ''/'' of
           Some pos \<Rightarrow> if pos \<noteq> 0 then substr cur 0 pos else ''/''
         | None \<Rightarrow> ''/'')
      else if char_at path 0 = CHR ''/'' then path
      else cur @ ''/'' @ path)"

text \<open>
  \<open>changeDirectory\<close>: \<open>chdir p\<close> tells whether the system call \<open>chdir(p)\<close> returns 0.
  The result is the returned flag and the explorer after the call.
\<close>

definition changeDirectory ::
  "(string \<Rightarrow> bool) \<Rightarrow> FileExplorer \<Rightarrow> string \<Rightarrow> bool \<times> FileExplorer" where
  "changeDirectory chdir fe path =
     (let np = newPath (currentPath fe) path in
      if chdir np then (True, fe\<lparr>currentPath := np\<rparr>) else (False, fe))"

text \<open>The invariant of the cursor: a non-empty string that starts with the separator.\<close>

definition absolute :: "string \<Rightarrow> bool" where
  "absolute p = (p \<noteq> [] \<and> hd p = CHR ''/'')"

section \<open>Recursive search\<close>

text \<open>
  What \<open>readdir\<close> returns for one entry: the name and the type hint \<open>d_type\<close>. The program
  compares the hint with \<open>DT_DIR\<close> only.
\<close>

datatype d_type = DT_UNKNOWN | DT_DIR | DT_REG | DT_LNK

record dirent =
  d_name :: string
  d_type :: d_type

text \<open>
  The directory primitive: \<open>opendir path\<close> is \<open>None\<close> when \<open>opendir(path)\<close> returns null, and
  otherwise the entries that successive \<open>readdir\<close> calls return for that directory, in their
  order, the pseudo-entries \<open>.\<close> and \<open>..\<close> included.
\<close>

type_synonym opendir_t = "string \<Rightarrow> dirent list option"

text \<open>
  The state of one walk: \<open>results\<close> is the vector the program appends to. \<open>opened\<close> is not
  program state: it records, in order, the path of every \<open>opendir\<close> call, so that the
  directories a walk visits can be stated.
\<close>

record walk =
  results :: "string list"
  opened :: "string list"

text \<open>
  The body of \<open>searchInDirectory\<close>: the \<open>while\<close> loop over the entries of one directory.
  \<open>rec\<close> stands for the recursive call \<open>searchInDirectory(fullPath, pattern, results)\<close>;
  \<open>None\<close> is a recursive call that does not return.
\<close>

fun readdir_loop ::
  "(string \<Rightarrow> walk \<Rightarrow> walk option) \<Rightarrow> string \<Rightarrow> string \<Rightarrow> dirent list \<Rightarrow> walk \<Rightarrow> walk option"
where
  "readdir_loop rec path pattern [] w = Some w"
| "readdir_loop rec path pattern (entry # rest) w =
     (let name = d_name entry in
      if name = ''.'' \<or> name = ''..'' then readdir_loop rec path pattern rest w
      else
        let fullPath = path @ ''/'' @ name;
            w1 = (if find_str name pattern \<noteq> None
                  then w\<lparr>results := results w @ [fullPath]\<rparr> else w)
        in if d_type entry = DT_DIR
           then (case rec fullPath w1 of
                   None \<Rightarrow> None
                 | Some w2 \<Rightarrow> readdir_loop rec path pattern rest w2)
           else readdir_loop rec path pattern rest w1)"

lemma readdir_loop_mono [partial_function_mono]:
  assumes "\<And>p w. mono_option (\<lambda>f. R f p w)"
  shows "mono_option (\<lambda>f. readdir_loop (R f) path pattern ents w)"
  using assms
proof (induction ents arbitrary: w)
  case Nil
  show ?case by (simp add: option.const_mono)
next
  case (Cons e ents)
  have bind_case: "\<And>x g. (case x of None \<Rightarrow> None | Some (y::walk) \<Rightarrow> g y)
      = Option.bind x (g :: walk \<Rightarrow> walk option)"
    by (simp split: option.split)
  show ?case
    unfolding readdir_loop.simps Let_def bind_case
    by (intro partial_function_mono Cons)
qed

text \<open>
  \<open>searchInDirectory\<close>. The recursion follows path strings through whatever \<open>opendir\<close>
  answers, so nothing bounds it in general (a directory that lists itself under another
  name is walked for ever): the function is partial, and \<open>None\<close> is a call that never
  returns.
\<close>

partial_function (option) searchInDirectory ::
  "opendir_t \<Rightarrow> string \<Rightarrow> string \<Rightarrow> walk \<Rightarrow> walk option"
where
  "searchInDirectory opendir path pattern w =
     (case opendir path of
        None \<Rightarrow> Some (w\<lparr>opened := opened w @ [path]\<rparr>)
      | Some entries \<Rightarrow>
          readdir_loop (\<lambda>p v. searchInDirectory opendir p pattern v) path pattern entries
            (w\<lparr>opened := opened w @ [path]\<rparr>))"

subsection \<open>Finite directory trees\<close>

text \<open>
  The specification side. A finite tree of files and directories. A file is any entry
  that is not a directory (a regular file, a symbolic link, ...): it has a name and the
  type hint \<open>readdir\<close> reports for it. A directory has a name, the type hint \<open>readdir\<close>
  reports for it, whether the \<open>opendir\<close> call a walk makes on it succeeds (it fails for
  lack of permission, and also when the walk already holds too many directories open),
  and its children in \<open>readdir\<close> order.
\<close>

datatype tree = File string d_type | Dir string d_type bool "tree list"

fun dirent_of :: "tree \<Rightarrow> dirent" where
  "dirent_of (File n hint) = \<lparr>d_name = n, d_type = hint\<rparr>"
| "dirent_of (Dir n hint opens cs) = \<lparr>d_name = n, d_type = hint\<rparr>"

definition dot_entry :: "dirent \<Rightarrow> bool" where
  "dot_entry e = (d_name e = ''.'' \<or> d_name e = ''..'')"

text \<open>
  \<open>opendir\<close> shows the directory at \<open>path\<close> as the tree says: it fails when the tree says
  the call fails, and otherwise lists exactly the children, among any number of
  \<open>.\<close> and \<open>..\<close> entries. An entry that is not a directory may carry any hint but
  \<open>DT_DIR\<close>, which \<open>readdir\<close> gives to directories only.
\<close>

definition lists_as :: "opendir_t \<Rightarrow> string \<Rightarrow> bool \<Rightarrow> tree list \<Rightarrow> bool" where
  "lists_as opendir path opens ts =
     (case opendir path of
        None \<Rightarrow> \<not> opens
      | Some entries \<Rightarrow> opens \<and> filter (\<lambda>e. \<not> dot_entry e) entries = map dirent_of ts)"

fun subtrees_at :: "opendir_t \<Rightarrow> string \<Rightarrow> tree list \<Rightarrow> bool" where
  "subtrees_at opendir path [] = True"
| "subtrees_at opendir path (File n hint # ts) =
     (hint \<noteq> DT_DIR \<and> subtrees_at opendir path ts)"
| "subtrees_at opendir path (Dir n hint opens cs # ts) =
     (lists_as opendir (path @ ''/'' @ n) opens cs
      \<and> subtrees_at opendir (path @ ''/'' @ n) cs
      \<and> subtrees_at opendir path ts)"

text \<open>The file system below \<open>root\<close> is the finite tree with children \<open>ts\<close>.\<close>

definition is_tree :: "opendir_t \<Rightarrow> string \<Rightarrow> bool \<Rightarrow> tree list \<Rightarrow> bool" where
  "is_tree opendir root opens ts =
     (lists_as opendir root opens ts \<and> subtrees_at opendir root ts)"

text \<open>
  Every directory of the tree is reported with the hint \<open>DT_DIR\<close>, and the \<open>opendir\<close> call
  of the walk succeeds on every one of them.
\<close>

fun plain :: "tree list \<Rightarrow> bool" where
  "plain [] = True"
| "plain (File n hint # ts) = plain ts"
| "plain (Dir n hint opens cs # ts) = (hint = DT_DIR \<and> opens \<and> plain cs \<and> plain ts)"

text \<open>
  All descendants, at any depth, as pairs of absolute path and name, and the absolute
  paths of all directories, both in pre-order.
\<close>

fun descendants :: "string \<Rightarrow> tree list \<Rightarrow> (string \<times> string) list" where
  "descendants path [] = []"
| "descendants path (File n hint # ts) = (path @ ''/'' @ n, n) # descendants path ts"
| "descendants path (Dir n hint opens cs # ts) =
     (path @ ''/'' @ n, n) # descendants (path @ ''/'' @ n) cs @ descendants path ts"

fun directories :: "string \<Rightarrow> tree list \<Rightarrow> string list" where
  "directories path [] = []"
| "directories path (File n hint # ts) = directories path ts"
| "directories path (Dir n hint opens cs # ts) =
     (path @ ''/'' @ n) # directories (path @ ''/'' @ n) cs @ directories path ts"

text \<open>
  What a walk reports and which directories it tries to open, read off the tree: a
  directory is descended into when its hint is \<open>DT_DIR\<close> and the \<open>opendir\<close> call on it
  succeeds.
\<close>

fun found :: "string \<Rightarrow> string \<Rightarrow> tree list \<Rightarrow> string list" where
  "found pattern path [] = []"
| "found pattern path (File n hint # ts) =
     (if find_str n pattern \<noteq> None then [path @ ''/'' @ n] else []) @ found pattern path ts"
| "found pattern path (Dir n hint opens cs # ts) =
     (if find_str n pattern \<noteq> None then [path @ ''/'' @ n] else [])
     @ (if hint = DT_DIR \<and> opens then found pattern (path @ ''/'' @ n) cs else [])
     @ found pattern path ts"

fun visited :: "string \<Rightarrow> tree list \<Rightarrow> string list" where
  "visited path [] = []"
| "visited path (File n hint # ts) = visited path ts"
| "visited path (Dir n hint opens cs # ts) =
     (if hint = DT_DIR
      then (path @ ''/'' @ n) # (if opens then visited (path @ ''/'' @ n) cs else [])
      else [])
     @ visited path ts"

subsection \<open>Example trees\<close>

text \<open>The scenario of the specification: \<open>/a/{b.txt, c/{b_old.txt, d.log}}\<close>.\<close>

definition example_opendir :: opendir_t where
  "example_opendir p =
     (if p = ''/a'' then
        Some [\<lparr>d_name = ''.'', d_type = DT_DIR\<rparr>, \<lparr>d_name = ''..'', d_type = DT_DIR\<rparr>,
              \<lparr>d_name = ''b.txt'', d_type = DT_REG\<rparr>, \<lparr>d_name = ''c'', d_type = DT_DIR\<rparr>]
      else if p = ''/a/c'' then
        Some [\<lparr>d_name = ''b_old.txt'', d_type = DT_REG\<rparr>, \<lparr>d_name = ''.'', d_type = DT_DIR\<rparr>,
              \<lparr>d_name = ''d.log'', d_type = DT_REG\<rparr>, \<lparr>d_name = ''..'', d_type = DT_DIR\<rparr>]
      else None)"

definition example_tree :: "tree list" where
  "example_tree =
     [File ''b.txt'' DT_REG,
      Dir ''c'' DT_DIR True [File ''b_old.txt'' DT_REG, File ''d.log'' DT_REG]]"

text \<open>The same tree when \<open>opendir\<close> fails on \<open>/a/c\<close> (permission denied).\<close>

definition locked_opendir :: opendir_t where
  "locked_opendir p =
     (if p = ''/a'' then
        Some [\<lparr>d_name = ''.'', d_type = DT_DIR\<rparr>, \<lparr>d_name = ''..'', d_type = DT_DIR\<rparr>,
              \<lparr>d_name = ''b.txt'', d_type = DT_REG\<rparr>, \<lparr>d_name = ''c'', d_type = DT_DIR\<rparr>]
      else None)"

definition locked_tree :: "tree list" where
  "locked_tree =
     [File ''b.txt'' DT_REG,
      Dir ''c'' DT_DIR False [File ''b_old.txt'' DT_REG, File ''d.log'' DT_REG]]"

text \<open>The same tree on a file system that reports no type hints for directories.\<close>

definition unhinted_opendir :: opendir_t where
  "unhinted_opendir p =
     (if p = ''/a'' then
        Some [\<lparr>d_name = ''.'', d_type = DT_UNKNOWN\<rparr>, \<lparr>d_name = ''..'', d_type = DT_UNKNOWN\<rparr>,
              \<lparr>d_name = ''b.txt'', d_type = DT_REG\<rparr>, \<lparr>d_name = ''c'', d_type = DT_UNKNOWN\<rparr>]
      else if p = ''/a/c'' then
        Some [\<lparr>d_name = ''.'', d_type = DT_UNKNOWN\<rparr>, \<lparr>d_name = ''..'', d_type = DT_UNKNOWN\<rparr>,
              \<lparr>d_name = ''b_old.txt'', d_type = DT_REG\<rparr>, \<lparr>d_name = ''d.log'', d_type = DT_REG\<rparr>]
      else None)"

definition unhinted_tree :: "tree list" where
  "unhinted_tree =
     [File ''b.txt'' DT_REG,
      Dir ''c'' DT_UNKNOWN True [File ''b_old.txt'' DT_REG, File ''d.log'' DT_REG]]"

text \<open>
  A tree whose files carry other hints: \<open>b.txt\<close> without a hint, a symbolic link \<open>lnk_b\<close>,
  and a directory \<open>c\<close> holding \<open>b_old.txt\<close>.
\<close>

definition mixed_opendir :: opendir_t where
  "mixed_opendir p =
     (if p = ''/a'' then
        Some [\<lparr>d_name = ''.'', d_type = DT_DIR\<rparr>, \<lparr>d_name = ''..'', d_type = DT_DIR\<rparr>,
              \<lparr>d_name = ''b.txt'', d_type = DT_UNKNOWN\<rparr>, \<lparr>d_name = ''lnk_b'', d_type = DT_LNK\<rparr>,
              \<lparr>d_name = ''c'', d_type = DT_DIR\<rparr>]
      else if p = ''/a/c'' then
        Some [\<lparr>d_name = ''.'', d_type = DT_DIR\<rparr>, \<lparr>d_name = ''..'', d_type = DT_DIR\<rparr>,
              \<lparr>d_name = ''b_old.txt'', d_type = DT_REG\<rparr>]
      else None)"

definition mixed_tree :: "tree list" where
  "mixed_tree =
     [File ''b.txt'' DT_UNKNOWN, File ''lnk_b'' DT_LNK,
      Dir ''c'' DT_DIR True [File ''b_old.txt'' DT_REG]]"

section \<open>Files, modes and the system calls of copy and chmod\<close>

type_synonym byte = "8 word"
type_synonym mode_t = "32 word"

text \<open>The file type bits of \<open>st_mode\<close>: \<open>0170000\<close>, \<open>0040000\<close> and \<open>0100000\<close> in octal.\<close>

definition S_IFMT :: mode_t where "S_IFMT = 0xF000"
definition S_IFDIR :: mode_t where "S_IFDIR = 0x4000"
definition S_IFREG :: mode_t where "S_IFREG = 0x8000"

definition S_ISDIR :: "mode_t \<Rightarrow> bool" where
  "S_ISDIR m = (m AND S_IFMT = S_IFDIR)"

text \<open>
  The permission bits of a mode, as \<open>viewFileInfo\<close> prints them: \<open>st_mode & 0777\<close>, the
  nine bits for owner, group and others.
\<close>

definition perm_bits :: "mode_t \<Rightarrow> mode_t" where
  "perm_bits m = m AND 0x1FF"

text \<open>
  A file as the kernel holds it: its mode, its bytes, and what the kernel lets this
  process do with it (open it for reading, open it for writing, change its mode).
\<close>

record inode =
  st_mode :: mode_t
  bytes :: "byte list"
  readable :: bool
  writable :: bool
  owned :: bool

text \<open>The calls the properties below speak about, as the trace records them.\<close>

datatype syscall = Sys_read int | Sys_write int int | Sys_chmod string mode_t

text \<open>
  The file system: \<open>namei\<close> resolves a path to an inode number (two paths may name one
  file), \<open>inodes\<close> is the inode table, \<open>may_create\<close> tells where this process may create a
  file, \<open>next_ino\<close> is the next unused inode number. \<open>trace\<close> is not part of the file
  system: it records each \<open>read\<close> with its result, each \<open>write\<close> with the count asked for
  and its result, and each \<open>chmod\<close> with its arguments, in the order of the calls.
\<close>

record os_state =
  namei :: "string \<Rightarrow> nat option"
  inodes :: "nat \<Rightarrow> inode"
  may_create :: "string \<Rightarrow> bool"
  next_ino :: nat
  umask :: mode_t
  trace :: "syscall list"

text \<open>\<open>stat(path, &st)\<close>: the field \<open>st_mode\<close>, \<open>None\<close> when the call fails.\<close>

definition sys_stat :: "string \<Rightarrow> os_state \<Rightarrow> mode_t option" where
  "sys_stat path s = map_option (\<lambda>i. st_mode (inodes s i)) (namei s path)"

text \<open>\<open>open(path, O_RDONLY)\<close>: the inode the descriptor reads, \<open>None\<close> for a negative result.\<close>

definition sys_open_rdonly :: "string \<Rightarrow> os_state \<Rightarrow> nat option" where
  "sys_open_rdonly path s =
     (case namei s path of
        None \<Rightarrow> None
      | Some i \<Rightarrow> if readable (inodes s i) then Some i else None)"

text \<open>
  \<open>open(path, O_WRONLY | O_CREAT | O_TRUNC, mode)\<close>: an existing file is emptied, a missing
  one is created empty with the mode masked by the umask and belongs to this process.
\<close>

definition sys_open_creat_trunc ::
  "string \<Rightarrow> mode_t \<Rightarrow> os_state \<Rightarrow> (nat \<times> os_state) option" where
  "sys_open_creat_trunc path mode s =
     (case namei s path of
        Some i \<Rightarrow>
          if writable (inodes s i) \<and> \<not> S_ISDIR (st_mode (inodes s i))
          then Some (i, s\<lparr>inodes := (inodes s)(i := (inodes s i)\<lparr>bytes := []\<rparr>)\<rparr>)
          else None
      | None \<Rightarrow>
          if may_create s path
          then let i = next_ino s in
            Some (i, s\<lparr>namei := (namei s)(path \<mapsto> i),
                       inodes := (inodes s)(i :=
                         \<lparr>st_mode = S_IFREG OR (mode AND NOT (umask s) AND 0xFFF), bytes = [],
                          readable = True, writable = True, owned = True\<rparr>),
                       next_ino := Suc i\<rparr>)
          else None)"

text \<open>
  \<open>chmod(path, mode)\<close>: the result (0 or -1) and the state after the call. The call sets
  the permission bits of a file this process may change and keeps its type bits.
\<close>

definition sys_chmod :: "string \<Rightarrow> mode_t \<Rightarrow> os_state \<Rightarrow> int \<times> os_state" where
  "sys_chmod path mode s =
     (let s1 = s\<lparr>trace := trace s @ [Sys_chmod path mode]\<rparr> in
      case namei s path of
        None \<Rightarrow> (- 1, s1)
      | Some i \<Rightarrow>
          if owned (inodes s i)
          then (0, s1\<lparr>inodes := (inodes s)(i := (inodes s i)
                  \<lparr>st_mode := (st_mode (inodes s i) AND S_IFMT) OR (mode AND 0xFFF)\<rparr>)\<rparr>)
          else (- 1, s1))"

text \<open>
  What the kernel does with one \<open>read\<close> or \<open>write\<close> is not the program's choice: the
  \<open>i\<close>-th call of each kind behaves as an outcome says. A read fails, or transfers at
  least one and at most \<open>k\<close> of the bytes not yet read (none at the end of the file); a
  write fails, or takes the first \<open>k\<close> bytes it is given.
\<close>

datatype read_outcome = Read_fails | Read_gives nat
datatype write_outcome = Write_fails | Write_takes nat

text \<open>\<open>read(fd, buffer, count)\<close>: the result and the bytes put into the buffer.\<close>

definition sys_read :: "read_outcome \<Rightarrow> byte list \<Rightarrow> nat \<Rightarrow> int \<times> byte list" where
  "sys_read outcome unread count =
     (case outcome of
        Read_fails \<Rightarrow> (- 1, [])
      | Read_gives k \<Rightarrow>
          let n = (if unread = [] \<or> count = 0 then 0
                   else max 1 (min k (min count (length unread))))
          in (int n, take n unread))"

text \<open>\<open>write(fd, buffer, count)\<close>: the result and the bytes that reached the file.\<close>

definition sys_write :: "write_outcome \<Rightarrow> byte list \<Rightarrow> int \<times> byte list" where
  "sys_write outcome buf =
     (case outcome of
        Write_fails \<Rightarrow> (- 1, [])
      | Write_takes k \<Rightarrow> (int (min k (length buf)), take k buf))"

text \<open>
  The \<open>while\<close> loop of \<open>copyFileContents\<close> and the \<open>return\<close> after it. \<open>unread\<close> are the
  bytes of the source from the read offset on, \<open>dest\<close> the bytes written so far, \<open>log\<close>
  the calls made so far. The result is the returned flag, the bytes of the destination
  and the calls.
\<close>

function copy_loop ::
  "(nat \<Rightarrow> read_outcome) \<Rightarrow> (nat \<Rightarrow> write_outcome) \<Rightarrow> nat \<Rightarrow> byte list \<Rightarrow> byte list \<Rightarrow>
   syscall list \<Rightarrow> bool \<times> byte list \<times> syscall list"
where
  "copy_loop rd wr i unread dest log =
     (case sys_read (rd i) unread 4096 of
        (bytesRead, buffer) \<Rightarrow>
          if bytesRead > 0 then
            (case sys_write (wr i) buffer of
               (written, taken) \<Rightarrow>
                 if written \<noteq> bytesRead
                 then (False, dest @ taken,
                       log @ [Sys_read bytesRead, Sys_write bytesRead written])
                 else copy_loop rd wr (Suc i) (drop (nat bytesRead) unread) (dest @ taken)
                        (log @ [Sys_read bytesRead, Sys_write bytesRead written]))
          else (bytesRead = 0, dest, log @ [Sys_read bytesRead]))"
  by pat_completeness auto
termination
  apply (relation "measure (\<lambda>(rd, wr, i, unread, dest, log). length unread)")
   apply simp
  apply (auto simp: sys_read_def Let_def split: read_outcome.splits if_splits)
  done

declare copy_loop.simps [simp del]

text \<open>
  \<open>copyFileContents\<close>. The source is read as it is once the destination has been opened:
  when both paths name one file, the truncation has emptied it before the first read.
  \<open>0x1A4\<close> is the mode \<open>0644\<close>.
\<close>

definition copyFileContents ::
  "(nat \<Rightarrow> read_outcome) \<Rightarrow> (nat \<Rightarrow> write_outcome) \<Rightarrow> string \<Rightarrow> string \<Rightarrow> os_state \<Rightarrow>
   bool \<times> os_state"
where
  "copyFileContents rd wr src dest s =
     (case sys_open_rdonly src s of
        None \<Rightarrow> (False, s)
      | Some srcFd \<Rightarrow>
          (case sys_open_creat_trunc dest 0x1A4 s of
             None \<Rightarrow> (False, s)
           | Some (destFd, s1) \<Rightarrow>
               (case copy_loop rd wr 0 (bytes (inodes s1 srcFd)) [] [] of
                  (ok, written, log) \<Rightarrow>
                    (ok, s1\<lparr>inodes := (inodes s1)(destFd := (inodes s1 destFd)\<lparr>bytes := written\<rparr>),
                            trace := trace s1 @ log\<rparr>))))"

text \<open>\<open>copyFile\<close>. The result of the final \<open>chmod\<close> is not looked at.\<close>

definition copyFile ::
  "(nat \<Rightarrow> read_outcome) \<Rightarrow> (nat \<Rightarrow> write_outcome) \<Rightarrow> FileExplorer \<Rightarrow> string \<Rightarrow> string \<Rightarrow>
   os_state \<Rightarrow> bool \<times> os_state"
where
  "copyFile rd wr fe src dest s =
     (let srcPath = currentPath fe @ ''/'' @ src;
          destPath = currentPath fe @ ''/'' @ dest
      in case sys_stat srcPath s of
           None \<Rightarrow> (False, s)
         | Some srcStat \<Rightarrow>
             if S_ISDIR srcStat then (False, s)
             else (case copyFileContents rd wr srcPath destPath s of
                     (True, s1) \<Rightarrow> (True, snd (sys_chmod destPath srcStat s1))
                   | (False, s1) \<Rightarrow> (False, s1)))"

text \<open>
  The value of a \<open>char\<close> in arithmetic: \<open>char\<close> is signed on the platform the program is
  written for, so bytes from 128 on are negative.
\<close>

definition char_code :: "char \<Rightarrow> int" where
  "char_code c = (if (of_char c :: nat) < 128 then of_char c else of_char c - 256)"

text \<open>
  The mode \<open>changePermissions\<close> computes from a string of length 3: the arithmetic is done
  in \<open>int\<close>, where it cannot overflow, and the result is converted to the unsigned
  \<open>mode_t\<close>. For a character below \<open>'0'\<close> the difference is negative; shifting it left
  multiplies it by a power of two, as two's complement machines do.
\<close>

definition perms_mode :: "string \<Rightarrow> mode_t" where
  "perms_mode perms =
     word_of_int
       (push_bit 6 (char_code (perms ! 0) - char_code CHR ''0'')
        OR push_bit 3 (char_code (perms ! 1) - char_code CHR ''0'')
        OR (char_code (perms ! 2) - char_code CHR ''0''))"

definition changePermissions ::
  "FileExplorer \<Rightarrow> string \<Rightarrow> string \<Rightarrow> os_state \<Rightarrow> bool \<times> os_state" where
  "changePermissions fe name perms s =
     (let fullPath = currentPath fe @ ''/'' @ name in
      if length perms = 3 then
        (let mode = perms_mode perms in
         case sys_chmod fullPath mode s of (rc, s1) \<Rightarrow> (rc = 0, s1))
      else (False, s))"

text \<open>
  A write that returned anything but the count it was asked for (an error included), and
  a read that returned an error.
\<close>

fun short_write :: "syscall \<Rightarrow> bool" where
  "short_write (Sys_write n w) = (w \<noteq> n)"
| "short_write _ = False"

fun read_error :: "syscall \<Rightarrow> bool" where
  "read_error (Sys_read r) = (r < 0)"
| "read_error _ = False"


subsection \<open>Example file system\<close>

text \<open>
  A directory \<open>/d\<close> with a file \<open>f\<close> of this process (mode \<open>0600\<close>, three bytes) and a file
  \<open>g\<close> of another user that everyone may write (mode \<open>0666\<close>); the umask is \<open>022\<close>.
\<close>

definition example_os :: os_state where
  "example_os =
     \<lparr>namei = (\<lambda>p. if p = ''/d/f'' then Some 1 else if p = ''/d/g'' then Some 2 else None),
      inodes = (\<lambda>i.
        if i = 1 then
          \<lparr>st_mode = 0x8180, bytes = [1, 2, 3], readable = True, writable = True, owned = True\<rparr>
        else if i = 2 then
          \<lparr>st_mode = 0x81B6, bytes = [9], readable = True, writable = True, owned = False\<rparr>
        else
          \<lparr>st_mode = 0, bytes = [], readable = False, writable = False, owned = False\<rparr>),
      may_create = (\<lambda>p. True),
      next_ino = 3,
      umask = 0x12,
      trace = []\<rparr>"


definition whole_writes :: "nat \<Rightarrow> write_outcome" where
  "whole_writes i = Write_takes 4096"

definition two_byte_reads :: "nat \<Rightarrow> read_outcome" where
  "two_byte_reads i = Read_gives 2"

definition short_second_write :: "nat \<Rightarrow> write_outcome" where
  "short_second_write i = (if i = 1 then Write_takes 0 else Write_takes 4096)"

definition failing_second_read :: "nat \<Rightarrow> read_outcome" where
  "failing_second_read i = (if i = 1 then Read_fails else Read_gives 2)"

section \<open>Navigation\<close>

lemma find_last_of_Some:
  "find_last_of s c = Some pos \<Longrightarrow>
     pos < length s \<and> s ! pos = c \<and> (\<forall>j. pos < j \<and> j < length s \<longrightarrow> s ! j \<noteq> c)"
proof (induction s arbitrary: pos)
  case Nil
  then show ?case by simp
next
  case (Cons x xs)
  show ?case
  proof (cases "find_last_of xs c")
    case None
    with Cons.prems have p0: "pos = 0" and xc: "x = c"
      by (auto split: if_splits)
    have none: "\<And>j. j < length xs \<Longrightarrow> xs ! j \<noteq> c"
    proof -
      fix j assume "j < length xs"
      have "find_last_of xs c = None \<Longrightarrow> c \<notin> set xs"
        by (induction xs) (auto split: option.splits if_splits)
      with None have "c \<notin> set xs" by simp
      with \<open>j < length xs\<close> show "xs ! j \<noteq> c" by (metis nth_mem)
    qed
    show ?thesis
    proof (intro conjI allI impI)
      show "pos < length (x # xs)" using p0 by simp
      show "(x # xs) ! pos = c" using p0 xc by simp
    next
      fix j assume j: "pos < j \<and> j < length (x # xs)"
      then obtain k where k: "j = Suc k" using p0 by (cases j) auto
      with j have "k < length xs" by simp
      with none k show "(x # xs) ! j \<noteq> c" by simp
    qed
  next
    case (Some i)
    with Cons.prems have pos: "pos = Suc i" by simp
    from Cons.IH [OF Some]
    have ih: "i < length xs" "xs ! i = c" "\<forall>j. i < j \<and> j < length xs \<longrightarrow> xs ! j \<noteq> c"
      by auto
    show ?thesis
    proof (intro conjI allI impI)
      show "pos < length (x # xs)" using pos ih(1) by simp
      show "(x # xs) ! pos = c" using pos ih(2) by simp
    next
      fix j assume j: "pos < j \<and> j < length (x # xs)"
      then obtain k where k: "j = Suc k" by (cases j) auto
      with j pos have "i < k \<and> k < length xs" by simp
      with ih(3) k show "(x # xs) ! j \<noteq> c" by simp
    qed
  qed
qed

lemma newPath_absolute:
  assumes "absolute cur"
  shows "absolute (newPath cur path)"
proof (cases "path = ''..''")
  case True
  show ?thesis
  proof (cases "find_last_of cur CHR ''/''")
    case None
    with True show ?thesis by (simp add: newPath_def absolute_def)
  next
    case (Some pos)
    show ?thesis
    proof (cases "pos = 0")
      case True
      with Some \<open>path = ''..''\<close> show ?thesis by (simp add: newPath_def absolute_def)
    next
      case False
      then have "take pos cur \<noteq> [] \<and> hd (take pos cur) = hd cur"
        using assms by (cases cur; cases pos) (auto simp: absolute_def)
      with Some False \<open>path = ''..''\<close> assms show ?thesis
        by (simp add: newPath_def absolute_def substr_def)
    qed
  qed
next
  case False
  show ?thesis
  proof (cases "char_at path 0 = CHR ''/''")
    case True
    then have "path \<noteq> [] \<and> hd path = CHR ''/''"
      by (cases path) (auto simp: char_at_def)
    with True False show ?thesis by (simp add: newPath_def absolute_def)
  next
    case nabs: False
    with False assms show ?thesis by (simp add: newPath_def absolute_def)
  qed
qed

text \<open>
  Claim C2. When \<open>chdir\<close> refuses the resolved path (it does not exist, is not a directory, or
  may not be entered), \<open>changeDirectory\<close> returns false (the spec's
  \<open>NavigationError::Unreachable\<close>) and the explorer, hence its stored cursor, is exactly
  what it was before the call. This holds for every cursor and every token.
\<close>

theorem changeDirectory_failure_keeps_cursor:
  assumes "\<not> chdir (newPath (currentPath fe) token)"
  shows "changeDirectory chdir fe token = (False, fe)
       \<and> currentPath (snd (changeDirectory chdir fe token)) = currentPath fe"
  using assms by (simp add: changeDirectory_def Let_def)

theorem changeDirectory_failure_keeps_cursor_witness:
  "\<not> (\<lambda>p. p = ''/home'') (newPath (currentPath \<lparr>currentPath = ''/home''\<rparr>) ''nowhere'')
   \<and> changeDirectory (\<lambda>p. p = ''/home'') \<lparr>currentPath = ''/home''\<rparr> ''nowhere''
       = (False, \<lparr>currentPath = ''/home''\<rparr>)
   \<and> newPath ''/home'' ''nowhere'' = ''/home/nowhere''"
proof -
  have h: "\<not> (\<lambda>p. p = ''/home'') (newPath (currentPath \<lparr>currentPath = ''/home''\<rparr>) ''nowhere'')"
    by (simp add: newPath_def char_at_def)
  from changeDirectory_failure_keeps_cursor
         [of "\<lambda>p. p = ''/home''" "\<lparr>currentPath = ''/home''\<rparr>" "''nowhere''", OF h] h
  show ?thesis by (simp add: newPath_def char_at_def)
qed

text \<open>
  Claim C3. For the token \<open>..\<close> the resolved path is the cursor cut at its last separator
  (the characters before that separator), unless that separator is at index 0 or there is
  none, in which case it is \<open>/\<close>. From the root the resolved path is the root, and when
  \<open>chdir\<close> accepts it the call succeeds and leaves the cursor at \<open>/\<close>. Starting from
  \<open>/x/y\<close>, three calls give \<open>/x\<close>, \<open>/\<close> and \<open>/\<close> again, each returning true, when
  \<open>chdir\<close> accepts \<open>/x\<close> and \<open>/\<close>.
\<close>

theorem changeDirectory_parent:
  "(\<forall>cur pos. find_last_of cur CHR ''/'' = Some pos \<and> pos \<noteq> 0 \<longrightarrow>
       newPath cur ''..'' = take pos cur
       \<and> pos < length cur \<and> cur ! pos = CHR ''/''
       \<and> (\<forall>j. pos < j \<and> j < length cur \<longrightarrow> cur ! j \<noteq> CHR ''/''))
   \<and> (\<forall>cur. find_last_of cur CHR ''/'' = None \<or> find_last_of cur CHR ''/'' = Some 0 \<longrightarrow>
       newPath cur ''..'' = ''/'')
   \<and> newPath ''/'' ''..'' = ''/''
   \<and> (chdir ''/'' \<longrightarrow>
        changeDirectory chdir \<lparr>currentPath = ''/''\<rparr> ''..'' = (True, \<lparr>currentPath = ''/''\<rparr>))
   \<and> (chdir ''/x'' \<and> chdir ''/'' \<longrightarrow>
        changeDirectory chdir \<lparr>currentPath = ''/x/y''\<rparr> ''..'' = (True, \<lparr>currentPath = ''/x''\<rparr>)
      \<and> changeDirectory chdir \<lparr>currentPath = ''/x''\<rparr> ''..'' = (True, \<lparr>currentPath = ''/''\<rparr>)
      \<and> changeDirectory chdir \<lparr>currentPath = ''/''\<rparr> ''..'' = (True, \<lparr>currentPath = ''/''\<rparr>))"
proof (intro conjI allI impI)
  fix cur pos
  assume a: "find_last_of cur CHR ''/'' = Some pos \<and> pos \<noteq> 0"
  then show "newPath cur ''..'' = take pos cur"
    by (simp add: newPath_def substr_def)
  from a find_last_of_Some [of cur "CHR ''/''" pos]
  show "pos < length cur" and "cur ! pos = CHR ''/''" by simp_all
  fix j assume "pos < j \<and> j < length cur"
  with a find_last_of_Some [of cur "CHR ''/''" pos]
  show "cur ! j \<noteq> CHR ''/''" by simp
next
  fix cur
  assume "find_last_of cur CHR ''/'' = None \<or> find_last_of cur CHR ''/'' = Some 0"
  then show "newPath cur ''..'' = ''/''" by (auto simp: newPath_def)
next
  show "newPath ''/'' ''..'' = ''/''" by (simp add: newPath_def)
next
  assume "chdir ''/''"
  then show "changeDirectory chdir \<lparr>currentPath = ''/''\<rparr> ''..'' = (True, \<lparr>currentPath = ''/''\<rparr>)"
    by (simp add: changeDirectory_def newPath_def)
next
  assume a: "chdir ''/x'' \<and> chdir ''/''"
  then show "changeDirectory chdir \<lparr>currentPath = ''/x/y''\<rparr> ''..'' = (True, \<lparr>currentPath = ''/x''\<rparr>)"
    by (simp add: changeDirectory_def newPath_def substr_def)
  from a show "changeDirectory chdir \<lparr>currentPath = ''/x''\<rparr> ''..'' = (True, \<lparr>currentPath = ''/''\<rparr>)"
    by (simp add: changeDirectory_def newPath_def)
  from a show "changeDirectory chdir \<lparr>currentPath = ''/''\<rparr> ''..'' = (True, \<lparr>currentPath = ''/''\<rparr>)"
    by (simp add: changeDirectory_def newPath_def)
qed

theorem changeDirectory_parent_witness:
  "find_last_of ''/x/y'' CHR ''/'' = Some 2
   \<and> newPath ''/x/y'' ''..'' = ''/x''
   \<and> newPath ''/'' ''..'' = ''/''
   \<and> changeDirectory (\<lambda>p. p = ''/'' \<or> p = ''/x'') \<lparr>currentPath = ''/x/y''\<rparr> ''..''
        = (True, \<lparr>currentPath = ''/x''\<rparr>)
   \<and> changeDirectory (\<lambda>p. p = ''/'' \<or> p = ''/x'') \<lparr>currentPath = ''/x''\<rparr> ''..''
        = (True, \<lparr>currentPath = ''/''\<rparr>)
   \<and> changeDirectory (\<lambda>p. p = ''/'' \<or> p = ''/x'') \<lparr>currentPath = ''/''\<rparr> ''..''
        = (True, \<lparr>currentPath = ''/''\<rparr>)"
proof -
  have f: "find_last_of ''/x/y'' CHR ''/'' = Some 2" by simp
  note t = changeDirectory_parent [of "\<lambda>p. p = ''/'' \<or> p = ''/x''"]
  from t [THEN conjunct1, rule_format, of "''/x/y''" 2] f
  have cut: "newPath ''/x/y'' ''..'' = ''/x''" by simp
  from t [THEN conjunct2, THEN conjunct2] f cut show ?thesis by simp
qed

text \<open>
  Claim C7. The cursor is a non-empty string that starts with \<open>/\<close>: after construction, given
  that a working directory reported by the system is itself such a path (what POSIX
  promises of \<open>getcwd\<close>), with \<open>/\<close> as the fallback when \<open>getcwd\<close> fails; and after every
  \<open>changeDirectory\<close> call, successful or not, on a cursor that satisfied it, for every
  token.
\<close>

theorem cursor_absolute:
  "((case cwd of None \<Rightarrow> True | Some d \<Rightarrow> absolute d) \<longrightarrow>
        absolute (currentPath (FileExplorer_new cwd)))
   \<and> (absolute (currentPath fe) \<longrightarrow>
        absolute (currentPath (snd (changeDirectory chdir fe token))))"
proof (intro conjI impI)
  assume "case cwd of None \<Rightarrow> True | Some d \<Rightarrow> absolute d"
  then show "absolute (currentPath (FileExplorer_new cwd))"
    by (auto simp: FileExplorer_new_def getcwd_def absolute_def split: option.splits)
next
  assume "absolute (currentPath fe)"
  then show "absolute (currentPath (snd (changeDirectory chdir fe token)))"
    using newPath_absolute [of "currentPath fe" token]
    by (simp add: changeDirectory_def Let_def)
qed

theorem cursor_absolute_witness:
  "absolute ''/srv''
   \<and> currentPath (FileExplorer_new (Some ''/srv'')) = ''/srv''
   \<and> absolute (currentPath (FileExplorer_new (Some ''/srv'')))
   \<and> currentPath (FileExplorer_new None) = ''/''
   \<and> absolute (currentPath (snd (changeDirectory (\<lambda>p. True) \<lparr>currentPath = ''/srv''\<rparr> ''a/../b'')))
   \<and> absolute (currentPath (snd (changeDirectory (\<lambda>p. False) \<lparr>currentPath = ''/srv''\<rparr> ''a/../b'')))"
proof -
  have a: "absolute ''/srv''" by (simp add: absolute_def)
  have c: "case Some ''/srv'' of None \<Rightarrow> True | Some d \<Rightarrow> absolute d" using a by simp
  have f: "absolute (currentPath \<lparr>currentPath = ''/srv''\<rparr>)" using a by simp
  from cursor_absolute [of "Some ''/srv''" "\<lparr>currentPath = ''/srv''\<rparr>" "\<lambda>p. True" "''a/../b''"]
       cursor_absolute [of "Some ''/srv''" "\<lparr>currentPath = ''/srv''\<rparr>" "\<lambda>p. False" "''a/../b''"]
       a c f
  show ?thesis by (simp add: FileExplorer_new_def getcwd_def)
qed

text \<open>
  Claim C9. The empty token is not rejected. It is not \<open>..\<close>, and its index 0 reads the null
  character, so it is resolved as a relative token: the resolved path is the cursor
  followed by one separator. When \<open>chdir\<close> accepts that path the call returns true and the
  stored cursor is the old cursor with \<open>/\<close> appended, which differs from the old cursor.
\<close>

theorem changeDirectory_empty_token:
  "char_at '''' 0 = CHR 0x00
   \<and> char_at '''' 0 \<noteq> CHR ''/''
   \<and> newPath (currentPath fe) '''' = currentPath fe @ ''/''
   \<and> (chdir (currentPath fe @ ''/'') \<longrightarrow>
        changeDirectory chdir fe '''' = (True, fe\<lparr>currentPath := currentPath fe @ ''/''\<rparr>)
        \<and> currentPath (snd (changeDirectory chdir fe '''')) \<noteq> currentPath fe)"
  by (simp add: changeDirectory_def newPath_def char_at_def Let_def)

theorem changeDirectory_empty_token_witness:
  "(\<lambda>p. p = ''/tmp/'') (currentPath \<lparr>currentPath = ''/tmp''\<rparr> @ ''/'')
   \<and> changeDirectory (\<lambda>p. p = ''/tmp/'') \<lparr>currentPath = ''/tmp''\<rparr> ''''
        = (True, \<lparr>currentPath = ''/tmp/''\<rparr>)"
  using changeDirectory_empty_token [of "\<lparr>currentPath = ''/tmp''\<rparr>" "\<lambda>p. p = ''/tmp/''"]
  by simp

section \<open>Search\<close>

lemma find_str_sublist: "find_str name pat \<noteq> None \<longleftrightarrow> sublist pat name"
proof (induction name)
  case Nil
  show ?case by simp
next
  case (Cons c cs)
  show ?case using Cons.IH by (auto simp: sublist_Cons_right)
qed

lemma readdir_loop_skip_dots:
  "\<forall>e\<in>set us. dot_entry e \<Longrightarrow>
     readdir_loop rec path pattern (us @ rest) w = readdir_loop rec path pattern rest w"
  by (induction us) (auto simp: dot_entry_def)

text \<open>
  One directory of a tree: the loop over its entries returns, having appended what the
  tree says is found below it and having tried to open what the tree says is visited.
\<close>

lemma readdir_loop_tree:
  "filter (\<lambda>e. \<not> dot_entry e) ents = map dirent_of ts \<Longrightarrow> subtrees_at opendir path ts \<Longrightarrow>
   readdir_loop (\<lambda>p v. searchInDirectory opendir p pattern v) path pattern ents w
     = Some \<lparr>results = results w @ found pattern path ts,
             opened = opened w @ visited path ts\<rparr>"
proof (induction pattern path ts arbitrary: ents w rule: found.induct)
  case (1 pattern path)
  then have "\<forall>e\<in>set ents. dot_entry e" by (simp add: filter_empty_conv)
  from readdir_loop_skip_dots [OF this, of _ path pattern "[]" w]
  show ?case by simp
next
  case (2 pattern path n hint ts)
  let ?P = "\<lambda>e. \<not> dot_entry e"
  let ?e = "dirent_of (File n hint)"
  from "2.prems"(1) have "filter ?P ents = ?e # map dirent_of ts" by simp
  then obtain us vs where ents: "ents = us @ ?e # vs" and us: "\<forall>u\<in>set us. \<not> ?P u"
    and e: "?P ?e" and vs: "filter ?P vs = map dirent_of ts"
    by (auto simp: filter_eq_Cons_iff)
  from us have dots: "\<forall>u\<in>set us. dot_entry u" by simp
  from "2.prems"(2) have sub: "subtrees_at opendir path ts" and nodir: "hint \<noteq> DT_DIR"
    by simp_all
  from e have nd: "n \<noteq> ''.''" "n \<noteq> ''..''" by (auto simp: dot_entry_def)
  show ?case
    unfolding ents readdir_loop_skip_dots [OF dots]
    using nd nodir by (simp add: Let_def "2.IH" [OF vs sub])
next
  case (3 pattern path n hint opens cs ts)
  let ?P = "\<lambda>e. \<not> dot_entry e"
  let ?e = "dirent_of (Dir n hint opens cs)"
  let ?rec = "\<lambda>p v. searchInDirectory opendir p pattern v"
  define full where "full = path @ ''/'' @ n"
  from "3.prems"(1) have "filter ?P ents = ?e # map dirent_of ts" by simp
  then obtain us vs where ents: "ents = us @ ?e # vs" and us: "\<forall>u\<in>set us. \<not> ?P u"
    and e: "?P ?e" and vs: "filter ?P vs = map dirent_of ts"
    by (auto simp: filter_eq_Cons_iff)
  from us have dots: "\<forall>u\<in>set us. dot_entry u" by simp
  from "3.prems"(2) have sub: "subtrees_at opendir path ts"
    and subc: "subtrees_at opendir full cs"
    and lst: "lists_as opendir full opens cs" by (simp_all add: full_def)
  from e have nd: "n \<noteq> ''.''" "n \<noteq> ''..''" by (auto simp: dot_entry_def)
  have inner: "searchInDirectory opendir full pattern v
      = Some \<lparr>results = results v @ (if opens then found pattern full cs else []),
              opened = opened v @ full # (if opens then visited full cs else [])\<rparr>"
    if "hint = DT_DIR" for v
  proof (cases opens)
    case False
    with lst have "opendir full = None" by (simp add: lists_as_def split: option.splits)
    with False show ?thesis by (subst searchInDirectory.simps) simp
  next
    case True
    with lst obtain ents2 where od: "opendir full = Some ents2"
      and f2: "filter ?P ents2 = map dirent_of cs"
      by (auto simp: lists_as_def split: option.splits)
    have "readdir_loop ?rec full pattern ents2 u
        = Some \<lparr>results = results u @ found pattern full cs,
                opened = opened u @ visited full cs\<rparr>" for u
      using "3.IH"(1) [of ents2 u] that True f2 subc by (simp add: full_def)
    with True od show ?thesis by (subst searchInDirectory.simps) simp
  qed
  have step: "readdir_loop ?rec path pattern (?e # vs) w
      = Some \<lparr>results = results w @ found pattern path (Dir n hint opens cs # ts),
              opened = opened w @ visited path (Dir n hint opens cs # ts)\<rparr>"
    using nd
    by (simp add: Let_def full_def [symmetric] inner "3.IH"(2) [OF vs sub]
          del: append.simps append_Cons append_Nil)
  show ?case
    unfolding ents readdir_loop_skip_dots [OF dots] by (rule step)
qed

lemma searchInDirectory_tree:
  assumes "is_tree opendir root opens ts"
  shows "searchInDirectory opendir root pattern w
     = Some \<lparr>results = results w @ (if opens then found pattern root ts else []),
             opened = opened w @ root # (if opens then visited root ts else [])\<rparr>"
proof (cases opens)
  case False
  with assms have "opendir root = None"
    by (simp add: is_tree_def lists_as_def split: option.splits)
  with False show ?thesis by (subst searchInDirectory.simps) simp
next
  case True
  with assms obtain ents where od: "opendir root = Some ents"
    and f: "filter (\<lambda>e. \<not> dot_entry e) ents = map dirent_of ts"
    and sub: "subtrees_at opendir root ts"
    by (auto simp: is_tree_def lists_as_def split: option.splits)
  with True show ?thesis
    by (subst searchInDirectory.simps) (simp add: od readdir_loop_tree [OF f sub])
qed

lemma found_plain:
  "plain ts \<Longrightarrow>
     found pattern path ts
       = map fst (filter (\<lambda>(p, n). find_str n pattern \<noteq> None) (descendants path ts))"
  by (induction pattern path ts rule: found.induct) auto

lemma visited_plain: "plain ts \<Longrightarrow> visited path ts = directories path ts"
  by (induction path ts rule: visited.induct) auto

lemma visited_subseq: "subseq (visited path ts) (directories path ts)"
  by (induction path ts rule: visited.induct) (auto intro: list_emb_append_mono subseq_Cons')

lemma found_length: "length (found pattern path ts) \<le> length (descendants path ts)"
  by (induction pattern path ts rule: found.induct) auto

lemma found_subseq:
  "subseq (found pattern path ts)
     (map fst (filter (\<lambda>(p, n). find_str n pattern \<noteq> None) (descendants path ts)))"
  by (induction pattern path ts rule: found.induct) (auto intro: list_emb_append_mono)

lemma example_is_tree: "is_tree example_opendir ''/a'' True example_tree"
  by (simp add: is_tree_def lists_as_def example_opendir_def example_tree_def dot_entry_def)

lemma locked_is_tree: "is_tree locked_opendir ''/a'' True locked_tree"
  by (simp add: is_tree_def lists_as_def locked_opendir_def locked_tree_def dot_entry_def)

lemma unhinted_is_tree: "is_tree unhinted_opendir ''/a'' True unhinted_tree"
  by (simp add: is_tree_def lists_as_def unhinted_opendir_def unhinted_tree_def dot_entry_def)

lemma mixed_is_tree: "is_tree mixed_opendir ''/a'' True mixed_tree"
  by (simp add: is_tree_def lists_as_def mixed_opendir_def mixed_tree_def dot_entry_def)

text \<open>
  Claim C1, as amended. On every finite directory tree in which \<open>readdir\<close> reports every
  directory with the hint \<open>DT_DIR\<close> (an entry that is not a directory may carry any other
  hint) and every \<open>opendir\<close> call of the walk succeeds, and for every pattern, the search
  from the root returns, and its results are exactly the absolute paths of the
  descendants, files and directories at any depth, whose name contains the pattern as a
  substring (compared byte by byte, so case-sensitively): in pre-order as a list, and as
  a set the paths of all matching descendants and of no other. Directories whose own
  name does not match are descended into all the same, since the descendants of the
  statement are those of the whole tree.
\<close>

theorem searchInDirectory_complete:
  assumes "is_tree opendir root True ts" and "plain ts"
  shows "\<exists>w. searchInDirectory opendir root pattern \<lparr>results = [], opened = []\<rparr> = Some w
     \<and> results w
         = map fst (filter (\<lambda>(p, n). find_str n pattern \<noteq> None) (descendants root ts))
     \<and> set (results w)
         = {p. \<exists>n. (p, n) \<in> set (descendants root ts) \<and> sublist pattern n}"
proof -
  let ?hits = "map fst (filter (\<lambda>(p, n). find_str n pattern \<noteq> None) (descendants root ts))"
  have eq: "\<And>n. (find_str n pattern = None) = (\<not> sublist pattern n)"
    using find_str_sublist [of _ pattern] by blast
  have "set ?hits = {p. \<exists>n. (p, n) \<in> set (descendants root ts) \<and> sublist pattern n}"
    by (auto simp: eq image_iff)
  with searchInDirectory_tree [OF assms(1), of pattern "\<lparr>results = [], opened = []\<rparr>"]
    found_plain [OF assms(2), of pattern root]
  show ?thesis by simp
qed

theorem searchInDirectory_complete_witness:
  "is_tree example_opendir ''/a'' True example_tree
   \<and> plain example_tree
   \<and> map_option results
        (searchInDirectory example_opendir ''/a'' ''b'' \<lparr>results = [], opened = []\<rparr>)
       = Some [''/a/b.txt'', ''/a/c/b_old.txt'']
   \<and> map_option (\<lambda>w. set (results w))
        (searchInDirectory example_opendir ''/a'' ''b'' \<lparr>results = [], opened = []\<rparr>)
       = Some {''/a/b.txt'', ''/a/c/b_old.txt''}
   \<and> is_tree mixed_opendir ''/a'' True mixed_tree
   \<and> plain mixed_tree
   \<and> map_option results
        (searchInDirectory mixed_opendir ''/a'' ''b'' \<lparr>results = [], opened = []\<rparr>)
       = Some [''/a/b.txt'', ''/a/lnk_b'', ''/a/c/b_old.txt'']"
proof -
  have p: "plain example_tree" by (simp add: example_tree_def)
  have q: "plain mixed_tree" by (simp add: mixed_tree_def)
  from searchInDirectory_complete [OF example_is_tree p, of "''b''"]
  obtain w where
    w: "searchInDirectory example_opendir ''/a'' ''b'' \<lparr>results = [], opened = []\<rparr> = Some w"
    and r: "results w
      = map fst (filter (\<lambda>(p, n). find_str n ''b'' \<noteq> None) (descendants ''/a'' example_tree))"
    by blast
  from searchInDirectory_complete [OF mixed_is_tree q, of "''b''"]
  obtain v where
    v: "searchInDirectory mixed_opendir ''/a'' ''b'' \<lparr>results = [], opened = []\<rparr> = Some v"
    and rv: "results v
      = map fst (filter (\<lambda>(p, n). find_str n ''b'' \<noteq> None) (descendants ''/a'' mixed_tree))"
    by blast
  have "map fst (filter (\<lambda>(p, n). find_str n ''b'' \<noteq> None) (descendants ''/a'' example_tree))
      = [''/a/b.txt'', ''/a/c/b_old.txt'']"
    by (simp add: example_tree_def)
  moreover
  have "map fst (filter (\<lambda>(p, n). find_str n ''b'' \<noteq> None) (descendants ''/a'' mixed_tree))
      = [''/a/b.txt'', ''/a/lnk_b'', ''/a/c/b_old.txt'']"
    by (simp add: mixed_tree_def)
  ultimately show ?thesis
    using w r v rv p q example_is_tree mixed_is_tree by simp
qed

text \<open>
  Claim C1 as stated fails. When \<open>opendir\<close> fails on \<open>/a/c\<close>, the walk returns from it at
  once: \<open>b_old.txt\<close> is a descendant whose name contains \<open>b\<close>, and its path is not among
  the results. The same happens when \<open>readdir\<close> reports \<open>/a/c\<close> without the directory
  hint: the walk never tries to open it.
\<close>

theorem searchInDirectory_complete_counterexample:
  "is_tree locked_opendir ''/a'' True locked_tree
   \<and> (''/a/c/b_old.txt'', ''b_old.txt'') \<in> set (descendants ''/a'' locked_tree)
   \<and> sublist ''b'' ''b_old.txt''
   \<and> map_option results
        (searchInDirectory locked_opendir ''/a'' ''b'' \<lparr>results = [], opened = []\<rparr>)
       = Some [''/a/b.txt'']
   \<and> is_tree unhinted_opendir ''/a'' True unhinted_tree
   \<and> (''/a/c/b_old.txt'', ''b_old.txt'') \<in> set (descendants ''/a'' unhinted_tree)
   \<and> map_option results
        (searchInDirectory unhinted_opendir ''/a'' ''b'' \<lparr>results = [], opened = []\<rparr>)
       = Some [''/a/b.txt'']"
proof -
  have "sublist ''b'' ''b_old.txt''"
    using find_str_sublist [of "''b_old.txt''" "''b''"] by simp
  moreover have "(''/a/c/b_old.txt'', ''b_old.txt'') \<in> set (descendants ''/a'' locked_tree)"
    by (simp add: locked_tree_def)
  moreover have "(''/a/c/b_old.txt'', ''b_old.txt'') \<in> set (descendants ''/a'' unhinted_tree)"
    by (simp add: unhinted_tree_def)
  moreover have "map_option results
        (searchInDirectory locked_opendir ''/a'' ''b'' \<lparr>results = [], opened = []\<rparr>)
       = Some [''/a/b.txt'']"
    by (simp add: searchInDirectory_tree [OF locked_is_tree] locked_tree_def)
  moreover have "map_option results
        (searchInDirectory unhinted_opendir ''/a'' ''b'' \<lparr>results = [], opened = []\<rparr>)
       = Some [''/a/b.txt'']"
    by (simp add: searchInDirectory_tree [OF unhinted_is_tree] unhinted_tree_def)
  ultimately show ?thesis using locked_is_tree unhinted_is_tree by simp
qed

text \<open>
  Claim C8, as amended. On every finite directory tree, whichever \<open>opendir\<close> calls fail
  in it and whatever hints \<open>readdir\<close> reports, the search returns (the result is \<open>Some\<close>).
  The walk descends into a directory exactly when \<open>readdir\<close> reports it with the hint
  \<open>DT_DIR\<close> and the \<open>opendir\<close> call on it succeeds. On return the results are complete for
  the part of the tree so reached: they are the results on entry followed by the path of
  every entry reached whose name contains the pattern, in pre-order, all of them
  matching descendants of the tree, hence a finite list; nothing is delivered before the
  return. The walk has called \<open>opendir\<close> on the root and then on a subsequence of the
  pre-order list of the tree's directories, so on no directory twice. When every
  directory carries the hint \<open>DT_DIR\<close> and every \<open>opendir\<close> call succeeds, the call returns
  only after all directories of the tree have been opened, and the results hold every
  matching descendant of the whole tree.
\<close>

theorem searchInDirectory_terminates:
  assumes "is_tree opendir root opens ts"
  shows "\<exists>w. searchInDirectory opendir root pattern w0 = Some w
     \<and> results w = results w0 @ (if opens then found pattern root ts else [])
     \<and> subseq (found pattern root ts)
          (map fst (filter (\<lambda>(p, n). find_str n pattern \<noteq> None) (descendants root ts)))
     \<and> length (results w) \<le> length (results w0) + length (descendants root ts)
     \<and> opened w = opened w0 @ root # (if opens then visited root ts else [])
     \<and> subseq (visited root ts) (directories root ts)
     \<and> (opens \<and> plain ts \<longrightarrow>
          opened w = opened w0 @ root # directories root ts
          \<and> results w = results w0
              @ map fst (filter (\<lambda>(p, n). find_str n pattern \<noteq> None) (descendants root ts)))"
  using searchInDirectory_tree [OF assms, of pattern w0] visited_subseq [of root ts]
    visited_plain [of ts root] found_length [of pattern root ts]
    found_subseq [of pattern root ts] found_plain [of ts pattern root]
  by simp

theorem searchInDirectory_terminates_witness:
  "is_tree example_opendir ''/a'' True example_tree
   \<and> plain example_tree
   \<and> searchInDirectory example_opendir ''/a'' ''b'' \<lparr>results = [], opened = []\<rparr>
       = Some \<lparr>results = [''/a/b.txt'', ''/a/c/b_old.txt''], opened = [''/a'', ''/a/c'']\<rparr>
   \<and> is_tree locked_opendir ''/a'' True locked_tree
   \<and> searchInDirectory locked_opendir ''/a'' ''b'' \<lparr>results = [], opened = []\<rparr>
       = Some \<lparr>results = [''/a/b.txt''], opened = [''/a'', ''/a/c'']\<rparr>
   \<and> is_tree unhinted_opendir ''/a'' True unhinted_tree
   \<and> searchInDirectory unhinted_opendir ''/a'' ''b'' \<lparr>results = [], opened = []\<rparr>
       = Some \<lparr>results = [''/a/b.txt''], opened = [''/a'']\<rparr>"
proof -
  have p: "plain example_tree" by (simp add: example_tree_def)
  from searchInDirectory_terminates
         [OF example_is_tree, of "''b''" "\<lparr>results = [], opened = []\<rparr>"]
  have a: "searchInDirectory example_opendir ''/a'' ''b'' \<lparr>results = [], opened = []\<rparr>
       = Some \<lparr>results = [''/a/b.txt'', ''/a/c/b_old.txt''], opened = [''/a'', ''/a/c'']\<rparr>"
    by (auto simp: example_tree_def)
  from searchInDirectory_terminates
         [OF locked_is_tree, of "''b''" "\<lparr>results = [], opened = []\<rparr>"]
  have b: "searchInDirectory locked_opendir ''/a'' ''b'' \<lparr>results = [], opened = []\<rparr>
       = Some \<lparr>results = [''/a/b.txt''], opened = [''/a'', ''/a/c'']\<rparr>"
    by (auto simp: locked_tree_def)
  from searchInDirectory_terminates
         [OF unhinted_is_tree, of "''b''" "\<lparr>results = [], opened = []\<rparr>"]
  have c: "searchInDirectory unhinted_opendir ''/a'' ''b'' \<lparr>results = [], opened = []\<rparr>
       = Some \<lparr>results = [''/a/b.txt''], opened = [''/a'']\<rparr>"
    by (auto simp: unhinted_tree_def)
  from a b c p example_is_tree locked_is_tree unhinted_is_tree show ?thesis by simp
qed

text \<open>
  Claim C8 as stated fails in its last part. On the tree whose directory \<open>/a/c\<close> is
  reported without the directory hint, the call returns having opened \<open>/a\<close> only: \<open>/a/c\<close>
  is a directory of the tree that was never opened, and its entry \<open>d.log\<close> was never
  seen. When \<open>opendir\<close> fails on \<open>/a/c\<close>, the call returns without having seen \<open>d.log\<close>
  either. In both cases the subtree has not been visited entirely.
\<close>

theorem searchInDirectory_visit_counterexample:
  "is_tree unhinted_opendir ''/a'' True unhinted_tree
   \<and> directories ''/a'' unhinted_tree = [''/a/c'']
   \<and> map_option opened
        (searchInDirectory unhinted_opendir ''/a'' ''d.log'' \<lparr>results = [], opened = []\<rparr>)
       = Some [''/a'']
   \<and> (''/a/c/d.log'', ''d.log'') \<in> set (descendants ''/a'' unhinted_tree)
   \<and> map_option results
        (searchInDirectory unhinted_opendir ''/a'' ''d.log'' \<lparr>results = [], opened = []\<rparr>)
       = Some []
   \<and> is_tree locked_opendir ''/a'' True locked_tree
   \<and> (''/a/c/d.log'', ''d.log'') \<in> set (descendants ''/a'' locked_tree)
   \<and> map_option results
        (searchInDirectory locked_opendir ''/a'' ''d.log'' \<lparr>results = [], opened = []\<rparr>)
       = Some []"
proof -
  have "directories ''/a'' unhinted_tree = [''/a/c'']"
    by (simp add: unhinted_tree_def)
  moreover have "(''/a/c/d.log'', ''d.log'') \<in> set (descendants ''/a'' unhinted_tree)"
    by (simp add: unhinted_tree_def)
  moreover have "(''/a/c/d.log'', ''d.log'') \<in> set (descendants ''/a'' locked_tree)"
    by (simp add: locked_tree_def)
  moreover have "searchInDirectory unhinted_opendir ''/a'' ''d.log'' \<lparr>results = [], opened = []\<rparr>
       = Some \<lparr>results = [], opened = [''/a'']\<rparr>"
    by (simp add: searchInDirectory_tree [OF unhinted_is_tree] unhinted_tree_def)
  moreover have "map_option results
        (searchInDirectory locked_opendir ''/a'' ''d.log'' \<lparr>results = [], opened = []\<rparr>)
       = Some []"
    by (simp add: searchInDirectory_tree [OF locked_is_tree] locked_tree_def)
  ultimately show ?thesis using locked_is_tree unhinted_is_tree by simp
qed

section \<open>Copying a file\<close>



lemma sys_chmod_frame:
  "namei (snd (sys_chmod p m s)) = namei s"
  "bytes (inodes (snd (sys_chmod p m s)) i) = bytes (inodes s i)"
  "trace (snd (sys_chmod p m s)) = trace s @ [Sys_chmod p m]"
  by (simp_all add: sys_chmod_def Let_def split: option.splits)


text \<open>
  The loop only ever extends the log. When it returns true it has written every unread
  byte, no write in its part of the log was short and no read failed.
\<close>

lemma copy_loop_result:
  "\<exists>new. snd (snd (copy_loop rd wr i unread dest log)) = log @ new
     \<and> (fst (copy_loop rd wr i unread dest log) \<longrightarrow>
          fst (snd (copy_loop rd wr i unread dest log)) = dest @ unread
          \<and> (\<forall>ev\<in>set new. \<not> short_write ev \<and> \<not> read_error ev))"
proof (induction rd wr i unread dest log rule: copy_loop.induct)
  case (1 rd wr i unread dest log)
  obtain bytesRead buffer where r: "sys_read (rd i) unread 4096 = (bytesRead, buffer)"
    by (cases "sys_read (rd i) unread 4096")
  obtain written taken where w: "sys_write (wr i) buffer = (written, taken)"
    by (cases "sys_write (wr i) buffer")
  show ?case
  proof (cases "bytesRead > 0")
    case False
    have "bytesRead = 0 \<Longrightarrow> unread = []"
      using r by (auto simp: sys_read_def Let_def split: read_outcome.splits if_splits)
    with False r show ?thesis
      by (subst (1 2 3) copy_loop.simps) auto
  next
    case True
    show ?thesis
    proof (cases "written = bytesRead")
      case False
      with True r w show ?thesis
        by (subst (1 2 3) copy_loop.simps) simp
    next
      case eq: True
      let ?log = "log @ [Sys_read bytesRead, Sys_write bytesRead written]"
      let ?next = "copy_loop rd wr (Suc i) (drop (nat bytesRead) unread) (dest @ taken) ?log"
      from r True have buf: "buffer = take (nat bytesRead) unread"
        by (auto simp: sys_read_def Let_def split: read_outcome.splits if_splits)
      from w eq True buf have tk: "taken = buffer"
        by (auto simp: sys_write_def split: write_outcome.splits)
      have neq: "\<not> written \<noteq> bytesRead" using eq by simp
      from "1.IH" [OF r [symmetric] True w [symmetric] neq]
      obtain new where n1: "snd (snd ?next) = ?log @ new"
        and n2: "fst ?next \<longrightarrow>
             fst (snd ?next) = (dest @ taken) @ drop (nat bytesRead) unread
             \<and> (\<forall>ev\<in>set new. \<not> short_write ev \<and> \<not> read_error ev)"
        by auto
      have unf: "copy_loop rd wr i unread dest log = ?next"
        using True r w eq by (subst copy_loop.simps) simp
      show ?thesis
      proof (intro exI conjI impI)
        show "snd (snd (copy_loop rd wr i unread dest log))
            = log @ ([Sys_read bytesRead, Sys_write bytesRead written] @ new)"
          using n1 unf by simp
      next
        assume "fst (copy_loop rd wr i unread dest log)"
        with n2 unf have a: "fst (snd (copy_loop rd wr i unread dest log))
               = (dest @ taken) @ drop (nat bytesRead) unread"
          and b: "\<forall>ev\<in>set new. \<not> short_write ev \<and> \<not> read_error ev" by simp_all
        from a tk buf show "fst (snd (copy_loop rd wr i unread dest log)) = dest @ unread"
          by simp
        from b eq True
        show "\<forall>ev\<in>set ([Sys_read bytesRead, Sys_write bytesRead written] @ new).
                \<not> short_write ev \<and> \<not> read_error ev"
          by simp
      qed
    qed
  qed
qed

lemma copyFileContents_trace:
  assumes ok: "copyFileContents rd wr src dest s = (True, s1)"
  shows "\<exists>log. trace s1 = trace s @ log
     \<and> (\<forall>ev\<in>set log. \<not> short_write ev \<and> \<not> read_error ev)"
proof -
  from ok obtain si where rd_open: "sys_open_rdonly src s = Some si"
    by (auto simp: copyFileContents_def split: option.splits)
  from ok rd_open obtain di s0 where op: "sys_open_creat_trunc dest 0x1A4 s = Some (di, s0)"
    by (auto simp: copyFileContents_def split: option.splits)
  obtain okf written log where
    loop: "copy_loop rd wr 0 (bytes (inodes s0 si)) [] [] = (okf, written, log)"
    by (cases "copy_loop rd wr 0 (bytes (inodes s0 si)) [] []") auto
  from ok rd_open op loop have okf: "okf" and s1: "trace s1 = trace s0 @ log"
    by (auto simp: copyFileContents_def)
  from op have "trace s0 = trace s"
    by (auto simp: sys_open_creat_trunc_def Let_def split: option.splits if_splits)
  moreover from copy_loop_result [of rd wr 0 "bytes (inodes s0 si)" "[]" "[]"] loop okf
  have "\<forall>ev\<in>set log. \<not> short_write ev \<and> \<not> read_error ev" by auto
  ultimately show ?thesis using s1 by simp
qed



lemmas os_eval =
  copyFile_def copyFileContents_def sys_stat_def sys_open_rdonly_def sys_open_creat_trunc_def
  sys_chmod_def example_os_def S_ISDIR_def S_IFMT_def S_IFDIR_def S_IFREG_def Let_def
  copy_loop.simps sys_read_def sys_write_def perm_bits_def




text \<open>
  Claim C5. If, among the calls one \<open>copyFile\<close> makes, a write returned anything but the
  number of bytes just read, or a read returned an error, then \<open>copyFile\<close> returns false
  (the spec's \<open>IOError\<close>). This holds for every source file, every behaviour of the reads
  and writes, and wherever in the stream the call stands.
\<close>

theorem copyFile_io_failure:
  assumes ev: "ev \<in> set (drop (length (trace s)) (trace (snd (copyFile rd wr fe src dest s))))"
    and bad: "short_write ev \<or> read_error ev"
  shows "\<not> fst (copyFile rd wr fe src dest s)"
proof
  assume t: "fst (copyFile rd wr fe src dest s)"
  define srcPath where "srcPath = currentPath fe @ ''/'' @ src"
  define destPath where "destPath = currentPath fe @ ''/'' @ dest"
  have unf: "copyFile rd wr fe src dest s =
      (case sys_stat srcPath s of
         None \<Rightarrow> (False, s)
       | Some srcStat \<Rightarrow>
           if S_ISDIR srcStat then (False, s)
           else (case copyFileContents rd wr srcPath destPath s of
                   (True, s1) \<Rightarrow> (True, snd (sys_chmod destPath srcStat s1))
                 | (False, s1) \<Rightarrow> (False, s1)))"
    unfolding copyFile_def Let_def srcPath_def destPath_def ..
  from t obtain m where st: "sys_stat srcPath s = Some m"
    unfolding unf by (auto split: option.splits)
  obtain r s1 where cc: "copyFileContents rd wr srcPath destPath s = (r, s1)"
    by (cases "copyFileContents rd wr srcPath destPath s")
  from t st cc have r: "r"
    and s': "snd (copyFile rd wr fe src dest s) = snd (sys_chmod destPath m s1)"
    unfolding unf by (auto split: if_splits bool.splits)
  from copyFileContents_trace [OF cc [unfolded r [THEN eqTrueI]]]
  obtain log where tr: "trace s1 = trace s @ log"
    and clean: "\<forall>e\<in>set log. \<not> short_write e \<and> \<not> read_error e"
    by blast
  from ev have "ev \<in> set (log @ [Sys_chmod destPath m])"
    by (simp add: s' sys_chmod_frame tr)
  with clean bad show False by auto
qed

theorem copyFile_io_failure_witness:
  "trace (snd (copyFile two_byte_reads short_second_write \<lparr>currentPath = ''/d''\<rparr> ''f'' ''h''
        example_os)) = [Sys_read 2, Sys_write 2 2, Sys_read 1, Sys_write 1 0]
   \<and> short_write (Sys_write 1 0)
   \<and> \<not> fst (copyFile two_byte_reads short_second_write \<lparr>currentPath = ''/d''\<rparr> ''f'' ''h''
        example_os)
   \<and> trace (snd (copyFile failing_second_read whole_writes \<lparr>currentPath = ''/d''\<rparr> ''f'' ''h''
        example_os)) = [Sys_read 2, Sys_write 2 2, Sys_read (- 1)]
   \<and> read_error (Sys_read (- 1))
   \<and> \<not> fst (copyFile failing_second_read whole_writes \<lparr>currentPath = ''/d''\<rparr> ''f'' ''h''
        example_os)"
proof -
  have t0: "trace example_os = []" by (simp add: example_os_def)
  have t1: "trace (snd (copyFile two_byte_reads short_second_write \<lparr>currentPath = ''/d''\<rparr>
       ''f'' ''h'' example_os)) = [Sys_read 2, Sys_write 2 2, Sys_read 1, Sys_write 1 0]"
    by (simp add: os_eval two_byte_reads_def short_second_write_def)
  have t2: "trace (snd (copyFile failing_second_read whole_writes \<lparr>currentPath = ''/d''\<rparr>
       ''f'' ''h'' example_os)) = [Sys_read 2, Sys_write 2 2, Sys_read (- 1)]"
    by (simp add: os_eval failing_second_read_def whole_writes_def)
  have m1: "Sys_write 1 0 \<in> set (drop (length (trace example_os))
      (trace (snd (copyFile two_byte_reads short_second_write \<lparr>currentPath = ''/d''\<rparr>
         ''f'' ''h'' example_os))))"
    unfolding t0 t1 by simp
  have m2: "Sys_read (- 1) \<in> set (drop (length (trace example_os))
      (trace (snd (copyFile failing_second_read whole_writes \<lparr>currentPath = ''/d''\<rparr>
         ''f'' ''h'' example_os))))"
    unfolding t0 t2 by simp
  have b1: "short_write (Sys_write 1 0) \<or> read_error (Sys_write 1 0)" by simp
  have b2: "short_write (Sys_read (- 1)) \<or> read_error (Sys_read (- 1))" by simp
  from copyFile_io_failure [OF m1 b1] copyFile_io_failure [OF m2 b2] t1 t2
  show ?thesis by simp
qed

section \<open>Changing permissions\<close>

text \<open>
  Claim C6. For every target name and every permission string whose length is not 3,
  \<open>changePermissions\<close> returns false (the spec's \<open>InvalidArgument\<close>) and the state after
  the call is the state before it: no inode has changed, so the mode of the target is
  what it was, and the trace has no new call, so \<open>chmod\<close> was not invoked.
\<close>

theorem changePermissions_bad_length:
  assumes "length perms \<noteq> 3"
  shows "changePermissions fe name perms s = (False, s)
       \<and> inodes (snd (changePermissions fe name perms s)) = inodes s
       \<and> trace (snd (changePermissions fe name perms s)) = trace s"
  using assms by (simp add: changePermissions_def Let_def)

theorem changePermissions_bad_length_witness:
  "length ''75'' \<noteq> 3 \<and> length ''0755'' \<noteq> 3 \<and> length ([] :: string) \<noteq> 3
   \<and> changePermissions \<lparr>currentPath = ''/d''\<rparr> ''f'' ''75'' example_os = (False, example_os)
   \<and> changePermissions \<lparr>currentPath = ''/d''\<rparr> ''f'' ''0755'' example_os = (False, example_os)
   \<and> changePermissions \<lparr>currentPath = ''/d''\<rparr> ''f'' [] example_os = (False, example_os)
   \<and> st_mode (inodes (snd (changePermissions \<lparr>currentPath = ''/d''\<rparr> ''f'' ''0755'' example_os)) 1)
       = 0x8180"
proof -
  have l: "length ''75'' \<noteq> 3" "length ''0755'' \<noteq> 3" "length ([] :: string) \<noteq> 3" by simp_all
  have m: "st_mode (inodes example_os 1) = 0x8180" by (simp add: example_os_def)
  from changePermissions_bad_length [OF l(1), of "\<lparr>currentPath = ''/d''\<rparr>" "''f''" example_os]
       changePermissions_bad_length [OF l(2), of "\<lparr>currentPath = ''/d''\<rparr>" "''f''" example_os]
       changePermissions_bad_length [OF l(3), of "\<lparr>currentPath = ''/d''\<rparr>" "''f''" example_os]
       l m
  show ?thesis by simp
qed

text \<open>
  Claim C10. \<open>changePermissions\<close> leaves the trace as it was, that is, it does not reach
  \<open>chmod\<close>, exactly when the length of the permission string is not 3. For every string
  of length 3, whatever its characters, it calls \<open>chmod\<close> once, on the target path, with
  the mode \<open>((c0 - '0') << 6) | ((c1 - '0') << 3) | (c2 - '0')\<close> computed from the
  character codes (\<open>'0'\<close> is 48), and returns whether that call returned 0. The strings
  \<open>abc\<close> and \<open>999\<close> pass, with the modes 3571 (octal 6763) and 585 (octal 1111).
\<close>

theorem changePermissions_length_only:
  "(trace (snd (changePermissions fe name perms s)) = trace s) = (length perms \<noteq> 3)
   \<and> (length perms = 3 \<longrightarrow>
        changePermissions fe name perms s
          = (fst (sys_chmod (currentPath fe @ ''/'' @ name) (perms_mode perms) s) = 0,
             snd (sys_chmod (currentPath fe @ ''/'' @ name) (perms_mode perms) s))
        \<and> trace (snd (changePermissions fe name perms s))
          = trace s @ [Sys_chmod (currentPath fe @ ''/'' @ name) (perms_mode perms)])
   \<and> perms_mode [c0, c1, c2]
       = word_of_int (push_bit 6 (char_code c0 - 48) OR push_bit 3 (char_code c1 - 48)
                      OR (char_code c2 - 48))
   \<and> perms_mode ''abc'' = 3571
   \<and> perms_mode ''999'' = 585"
proof (intro conjI impI)
  have run: "length perms = 3 \<Longrightarrow> changePermissions fe name perms s
          = (fst (sys_chmod (currentPath fe @ ''/'' @ name) (perms_mode perms) s) = 0,
             snd (sys_chmod (currentPath fe @ ''/'' @ name) (perms_mode perms) s))"
    by (simp add: changePermissions_def Let_def split: prod.splits)
  show "(trace (snd (changePermissions fe name perms s)) = trace s) = (length perms \<noteq> 3)"
  proof (cases "length perms = 3")
    case True
    with run show ?thesis by (simp add: sys_chmod_frame)
  next
    case False
    then show ?thesis by (simp add: changePermissions_def Let_def)
  qed
  assume l: "length perms = 3"
  from run [OF l] show "changePermissions fe name perms s
          = (fst (sys_chmod (currentPath fe @ ''/'' @ name) (perms_mode perms) s) = 0,
             snd (sys_chmod (currentPath fe @ ''/'' @ name) (perms_mode perms) s))" .
  then show "trace (snd (changePermissions fe name perms s))
          = trace s @ [Sys_chmod (currentPath fe @ ''/'' @ name) (perms_mode perms)]"
    by (simp add: sys_chmod_frame)
next
  show "perms_mode [c0, c1, c2]
       = word_of_int (push_bit 6 (char_code c0 - 48) OR push_bit 3 (char_code c1 - 48)
                      OR (char_code c2 - 48))"
    by (simp add: perms_mode_def char_code_def)
next
  show "perms_mode ''abc'' = 3571" by (simp add: perms_mode_def char_code_def)
  show "perms_mode ''999'' = 585" by (simp add: perms_mode_def char_code_def)
qed

theorem changePermissions_length_only_witness:
  "length ''abc'' = 3
   \<and> perms_mode ''abc'' = 3571
   \<and> fst (changePermissions \<lparr>currentPath = ''/d''\<rparr> ''f'' ''abc'' example_os)
   \<and> trace (snd (changePermissions \<lparr>currentPath = ''/d''\<rparr> ''f'' ''abc'' example_os))
       = [Sys_chmod ''/d/f'' 3571]
   \<and> st_mode (inodes (snd (changePermissions \<lparr>currentPath = ''/d''\<rparr> ''f'' ''abc'' example_os)) 1)
       = 0x8DF3
   \<and> trace (snd (changePermissions \<lparr>currentPath = ''/d''\<rparr> ''g'' ''999'' example_os))
       = [Sys_chmod ''/d/g'' 585]
   \<and> trace (snd (changePermissions \<lparr>currentPath = ''/d''\<rparr> ''f'' ''1234'' example_os)) = []"
proof -
  note t = changePermissions_length_only [of "\<lparr>currentPath = ''/d''\<rparr>" _ _ example_os]
  have l: "length ''abc'' = 3" "length ''999'' = 3" by simp_all
  have t0: "trace example_os = []" by (simp add: example_os_def)
  have m: "perms_mode ''abc'' = 3571" "perms_mode ''999'' = 585"
    using t [of "''f''" "''abc''", THEN conjunct2, THEN conjunct2, THEN conjunct2] by blast+
  from t [of "''f''" "''abc''", THEN conjunct2, THEN conjunct1, rule_format, OF l(1),
          THEN conjunct2]
  have a: "trace (snd (changePermissions \<lparr>currentPath = ''/d''\<rparr> ''f'' ''abc'' example_os))
       = [Sys_chmod ''/d/f'' 3571]"
    by (simp add: m t0)
  from t [of "''g''" "''999''", THEN conjunct2, THEN conjunct1, rule_format, OF l(2),
          THEN conjunct2]
  have b: "trace (snd (changePermissions \<lparr>currentPath = ''/d''\<rparr> ''g'' ''999'' example_os))
       = [Sys_chmod ''/d/g'' 585]"
    by (simp add: m t0)
  from t [of "''f''" "''1234''", THEN conjunct1]
  have c: "trace (snd (changePermissions \<lparr>currentPath = ''/d''\<rparr> ''f'' ''1234'' example_os)) = []"
    by (simp add: t0)
  have d: "fst (changePermissions \<lparr>currentPath = ''/d''\<rparr> ''f'' ''abc'' example_os)
      \<and> st_mode (inodes (snd (changePermissions \<lparr>currentPath = ''/d''\<rparr> ''f'' ''abc'' example_os)) 1)
          = 0x8DF3"
    by (simp add: changePermissions_def Let_def m sys_chmod_def example_os_def S_IFMT_def)
  from a b c d l m show ?thesis by simp
qed

end
